theory Spec2Isabelle
  imports Complex_Main "HOL-Library.AList"
begin

section \<open>The group service of \<open>srv.py\<close>\<close>

text \<open>
  \<open>srv.py\<close> keeps one global dictionary \<open>GROUPS\<close> from group identifiers to group
  records and serves it over REST handlers. The model passes the dictionary explicitly:
  every handler takes the store and returns its response together with the store it
  leaves behind. The dictionary is an association list, read with \<open>map_of\<close>, written with
  \<open>AList.update\<close> and shrunk with \<open>AList.delete\<close>; \<open>GROUPS.items()\<close> is the list itself.
\<close>

subsection \<open>Data\<close>

text \<open>
  The dictionaries built by \<open>create_group\<close>, one record per dictionary shape. An
  instance's \<open>addr\<close> is what \<open>allocate_ip\<close> returned: a string, or Python's \<open>None\<close> when
  the loop of \<open>allocate_ip\<close> ran off its end.

  \<open>memsize\<close> is a Python float. The handlers only store it, return it and test its
  truthiness (a float is falsy exactly when it equals zero), so it is modelled as a
  real number.
\<close>

record state =
  s_id :: string
  s_name :: string
  s_type :: string

record inst =
  i_id :: string
  i_name :: string
  i_addr :: "string option"
  i_host :: string

record group =
  g_name :: string
  g_id :: string
  g_memsize :: real
  g_type :: string
  g_state :: state
  g_instances :: "inst list"

type_synonym store = "(string \<times> group) list"

text \<open>
  What a handler can end with instead of a response: \<open>abort(400, ...)\<close> of the argument
  parser, \<open>abort(404, message=...)\<close> of \<open>abort_if_group_doesnt_exist\<close>, and the
  \<open>KeyError\<close> that \<open>GROUPS[group_id]\<close> raises on a missing key, which no handler
  catches: an uncaught exception is answered with status 500.
\<close>

datatype error = BadRequest string | NotFound string | KeyError string

fun status_of :: "error \<Rightarrow> nat" where
  "status_of (BadRequest _) = 400"
| "status_of (NotFound _) = 404"
| "status_of (KeyError _) = 500"

datatype payload = Group_body group | Empty_body

type_synonym response = "payload \<times> nat"

subsection \<open>Request arguments\<close>

text \<open>
  A body field as \<open>reqparse\<close> meets it: not in the request, in the request with a value
  the argument's \<open>type\<close> rejects, or in the request with the converted value.
\<close>

datatype 'a field = Absent | Invalid | Value 'a

record body =
  b_name :: "string field"
  b_memsize :: "real field"

text \<open>
  One \<open>add_argument(name, required=..., default=...)\<close>, parsed: a conversion failure
  aborts with 400; a field that is not there aborts with 400 when the argument is
  required and yields the default otherwise. A value that is there is returned as it
  is, the empty string included: \<open>required\<close> asks only whether the field was sent.
\<close>

definition parse_arg :: "string \<Rightarrow> bool \<Rightarrow> 'a option \<Rightarrow> 'a field \<Rightarrow> error + 'a option" where
  "parse_arg arg required dflt f =
     (case f of
        Invalid \<Rightarrow> Inl (BadRequest arg)
      | Value v \<Rightarrow> Inr (Some v)
      | Absent \<Rightarrow> if required then Inl (BadRequest arg) else Inr dflt)"

text \<open>The arguments dictionary \<open>args\<close> of a handler.\<close>

record args =
  a_name :: "string option"
  a_memsize :: "real option"

text \<open>
  \<open>parse_args\<close> of \<open>Group.put\<close>: \<open>name\<close> without default (so \<open>None\<close>),
  \<open>memsize\<close> with \<open>default=0.5\<close>. Arguments are parsed in the order they were added
  and the first failure aborts the request.
\<close>

definition parse_put :: "body \<Rightarrow> error + args" where
  "parse_put b =
     (case parse_arg ''name'' False None (b_name b) of
        Inl e \<Rightarrow> Inl e
      | Inr n \<Rightarrow>
          (case parse_arg ''memsize'' False (Some 0.5) (b_memsize b) of
             Inl e \<Rightarrow> Inl e
           | Inr m \<Rightarrow> Inr \<lparr>a_name = n, a_memsize = m\<rparr>))"

text \<open>\<open>parse_args\<close> of \<open>GroupList.post\<close>: \<open>name\<close> with \<open>required=True\<close>.\<close>

definition parse_post :: "body \<Rightarrow> error + args" where
  "parse_post b =
     (case parse_arg ''name'' True None (b_name b) of
        Inl e \<Rightarrow> Inl e
      | Inr n \<Rightarrow>
          (case parse_arg ''memsize'' False (Some 0.5) (b_memsize b) of
             Inl e \<Rightarrow> Inl e
           | Inr m \<Rightarrow> Inr \<lparr>a_name = n, a_memsize = m\<rparr>))"

text \<open>Python truthiness of the two argument values.\<close>

fun truthy_str :: "string option \<Rightarrow> bool" where
  "truthy_str None = False"
| "truthy_str (Some s) = (s \<noteq> [])"

fun truthy_float :: "real option \<Rightarrow> bool" where
  "truthy_float None = False"
| "truthy_float (Some x) = (x \<noteq> 0)"

subsection \<open>Addresses\<close>

text \<open>
  \<open>str\<close> of a non-negative integer, and \<open>str\<close> of an \<open>IPv4Address\<close>: the four octets
  of the 32-bit value, most significant first, in decimal, joined by dots.
\<close>

definition digit :: "nat \<Rightarrow> char" where
  "digit d = ''0123456789'' ! d"

fun dec :: "nat \<Rightarrow> string" where
  "dec n = (if n < 10 then [digit n] else dec (n div 10) @ [digit (n mod 10)])"

declare dec.simps [simp del]

definition str_ip :: "nat \<Rightarrow> string" where
  "str_ip a =
     dec (a div 2 ^ 24 mod 256) @ ''.'' @ dec (a div 2 ^ 16 mod 256) @ ''.'' @
     dec (a div 2 ^ 8 mod 256) @ ''.'' @ dec (a mod 256)"

definition ALLOC_SUBNET :: string where
  "ALLOC_SUBNET = ''172.20.0.0/16''"

text \<open>\<open>ALLOC_SUBNET.split('/')[0]\<close>: the text before the first slash.\<close>

definition network_address :: string where
  "network_address = takeWhile (\<lambda>c. c \<noteq> CHR ''/'') ALLOC_SUBNET"

text \<open>
  \<open>ipaddress.ip_network(ALLOC_SUBNET)\<close>: the network 172.20.0.0 with a 16-bit prefix.
  Iterating it yields every address from the network address to the broadcast address,
  both included, in ascending order: \<open>net_first\<close>, \<open>net_first + 1\<close>, ... up to
  \<open>net_first + net_size - 1\<close>.
\<close>

definition net_first :: nat where
  "net_first = 172 * 2 ^ 24 + 20 * 2 ^ 16"

definition net_size :: nat where
  "net_size = 2 ^ (32 - 16)"

text \<open>The \<open>addr\<close> of every instance of every group, in the order of \<open>GROUPS.items()\<close>.\<close>

definition store_addrs :: "store \<Rightarrow> string option list" where
  "store_addrs G = concat (map (\<lambda>(_, g). map i_addr (g_instances g)) G)"

text \<open>
  The \<open>for addr in net\<close> loop from the address \<open>a\<close> on, with \<open>n\<close> addresses left:
  return the first one whose text is not in \<open>except_list\<close>; fall off the end (Python
  returns \<open>None\<close>) when there is none.
\<close>

fun scan :: "nat \<Rightarrow> nat \<Rightarrow> string option set \<Rightarrow> string option" where
  "scan 0 a except_list = None"
| "scan (Suc n) a except_list =
     (if Some (str_ip a) \<notin> except_list then Some (str_ip a)
      else scan n (Suc a) except_list)"

definition allocate_ip :: "store \<Rightarrow> string option list \<Rightarrow> string option" where
  "allocate_ip G skip =
     (let allocated_ips = {Some network_address} \<union> set (store_addrs G);
          except_list = allocated_ips \<union> set skip
      in scan net_size net_first except_list)"

subsection \<open>Handlers\<close>

definition in_store :: "string \<Rightarrow> store \<Rightarrow> bool" where
  "in_store group_id G = (map_of G group_id \<noteq> None)"

definition not_found_message :: "string \<Rightarrow> string" where
  "not_found_message group_id = ''group '' @ group_id @ '' doesn'' @ [CHR 0x27] @ ''t exist''"

definition abort_if_group_doesnt_exist :: "store \<Rightarrow> string \<Rightarrow> error option" where
  "abort_if_group_doesnt_exist G group_id =
     (if \<not> in_store group_id G then Some (NotFound (not_found_message group_id)) else None)"

text \<open>\<open>Group.get\<close>: a returned value without a status is sent with 200.\<close>

definition get :: "store \<Rightarrow> string \<Rightarrow> (error + response) \<times> store" where
  "get G group_id =
     (case abort_if_group_doesnt_exist G group_id of
        Some e \<Rightarrow> (Inl e, G)
      | None \<Rightarrow>
          (case map_of G group_id of
             None \<Rightarrow> (Inl (KeyError group_id), G)
           | Some grp \<Rightarrow> (Inr (Group_body grp, 200), G)))"

definition delete :: "store \<Rightarrow> string \<Rightarrow> (error + response) \<times> store" where
  "delete G group_id =
     (case abort_if_group_doesnt_exist G group_id of
        Some e \<Rightarrow> (Inl e, G)
      | None \<Rightarrow> (Inr (Empty_body, 204), AList.delete group_id G))"

text \<open>
  \<open>Group.put\<close>: parse the arguments, read \<open>GROUPS[group_id]\<close>, overwrite \<open>name\<close> and
  \<open>memsize\<close> with the arguments that are truthy, store the group, answer 201. The
  handler does not call \<open>abort_if_group_doesnt_exist\<close>.
\<close>

definition put :: "store \<Rightarrow> string \<Rightarrow> body \<Rightarrow> (error + response) \<times> store" where
  "put G group_id b =
     (case parse_put b of
        Inl e \<Rightarrow> (Inl e, G)
      | Inr args \<Rightarrow>
          (case map_of G group_id of
             None \<Rightarrow> (Inl (KeyError group_id), G)
           | Some grp \<Rightarrow>
               (let group1 = (case a_name args of
                                Some n \<Rightarrow> if truthy_str (a_name args)
                                           then grp\<lparr>g_name := n\<rparr> else grp
                              | None \<Rightarrow> grp);
                    group2 = (case a_memsize args of
                                Some m \<Rightarrow> if truthy_float (a_memsize args)
                                           then group1\<lparr>g_memsize := m\<rparr> else group1
                              | None \<Rightarrow> group1)
                in (Inr (Group_body group2, 201), AList.update group_id group2 G))))"

text \<open>
  \<open>create_group\<close>; the identifier \<open>uuid.uuid4().hex\<close> is an input of the model. Both
  allocations read the store as it is before the new group is inserted.
\<close>

definition create_group :: "store \<Rightarrow> string \<Rightarrow> string \<Rightarrow> real \<Rightarrow> group" where
  "create_group G group_id name memsize =
     (let ip1 = allocate_ip G [];
          ip2 = allocate_ip G [ip1]
      in \<lparr>g_name = name,
          g_id = group_id,
          g_memsize = memsize,
          g_type = ''memcached'',
          g_state = \<lparr>s_id = ''1'', s_name = ''OK'', s_type = ''passing''\<rparr>,
          g_instances =
            [\<lparr>i_id = group_id @ ''_1'', i_name = ''1'', i_addr = ip1, i_host = ''localhost''\<rparr>,
             \<lparr>i_id = group_id @ ''_2'', i_name = ''2'', i_addr = ip2, i_host = ''localhost''\<rparr>]\<rparr>)"

text \<open>
  \<open>GroupList.post\<close>. After a successful parse \<open>name\<close> and \<open>memsize\<close> both hold a
  value (one is required, the other has a default), so the other branches of the two
  case distinctions are never taken.
\<close>

definition post :: "store \<Rightarrow> string \<Rightarrow> body \<Rightarrow> (error + response) \<times> store" where
  "post G uuid b =
     (case parse_post b of
        Inl e \<Rightarrow> (Inl e, G)
      | Inr args \<Rightarrow>
          (case (a_name args, a_memsize args) of
             (Some n, Some m) \<Rightarrow>
               (let grp = create_group G uuid n m
                in (Inr (Group_body grp, 201), AList.update (g_id grp) grp G))
           | _ \<Rightarrow> (Inl (BadRequest ''name''), G)))"

text \<open>
  The two groups inserted when the module is loaded; \<open>uuid1\<close> and \<open>uuid2\<close> are the
  identifiers drawn for them.
\<close>

definition bootstrap :: "string \<Rightarrow> string \<Rightarrow> store" where
  "bootstrap uuid1 uuid2 =
     (let group1 = create_group [] uuid1 ''memcached for Bob'' 0.5;
          G1 = AList.update (g_id group1) group1 [];
          group2 = create_group G1 uuid2 ''memcached for Alice'' 1.2
      in AList.update (g_id group2) group2 G1)"

text \<open>A request to the group resources, and the store after serving a list of them.\<close>

datatype request =
    POST string body
  | GET string
  | PUT string body
  | DELETE string

fun handle :: "store \<Rightarrow> request \<Rightarrow> (error + response) \<times> store" where
  "handle G (POST uuid b) = post G uuid b"
| "handle G (GET group_id) = get G group_id"
| "handle G (PUT group_id b) = put G group_id b"
| "handle G (DELETE group_id) = delete G group_id"

fun serve :: "store \<Rightarrow> request list \<Rightarrow> store" where
  "serve G [] = G"
| "serve G (r # rs) = serve (snd (handle G r)) rs"

text \<open>The status code a request ends with, error or not.\<close>

definition status :: "error + response \<Rightarrow> nat" where
  "status r = (case r of Inl e \<Rightarrow> status_of e | Inr (_, code) \<Rightarrow> code)"

text \<open>
  The fields of a group that \<open>create_group\<close> sets and no handler assigns afterwards.
\<close>

definition same_fixed_fields :: "group \<Rightarrow> group \<Rightarrow> bool" where
  "same_fixed_fields g g' =
     (g_id g' = g_id g \<and> g_type g' = g_type g \<and> g_state g' = g_state g
      \<and> g_instances g' = g_instances g)"

subsection \<open>Vocabulary of the allocator's contract\<close>

text \<open>
  The \<open>i\<close>-th address of the subnet in ascending numeric order, as text; \<open>i\<close> ranges
  over \<open>0 ..< net_size\<close>.
\<close>

definition subnet_addr :: "nat \<Rightarrow> string" where
  "subnet_addr i = str_ip (net_first + i)"

text \<open>
  An address is unavailable when it is the subnet's network address 172.20.0.0, when
  some instance of some group in the store records it as its \<open>addr\<close>, or when it is
  in the caller's \<open>skip\<close> list.
\<close>

definition unavailable :: "store \<Rightarrow> string option list \<Rightarrow> string \<Rightarrow> bool" where
  "unavailable G skip s =
     (s = ''172.20.0.0''
      \<or> (\<exists>(k, g)\<in>set G. \<exists>inst\<in>set (g_instances g). i_addr inst = Some s)
      \<or> Some s \<in> set skip)"

text \<open>A dotted quad inside 172.20.0.0/16: the first two octets are 172 and 20.\<close>

definition in_subnet :: "string \<Rightarrow> bool" where
  "in_subnet s = (\<exists>c<256. \<exists>d<256. s = ''172.20.'' @ dec c @ ''.'' @ dec d)"

text \<open>
  The allocator is exhausted for a creation on \<open>G\<close> when one of the two calls that
  \<open>create_group\<close> makes returns no address.
\<close>

definition exhausted :: "store \<Rightarrow> bool" where
  "exhausted G = (allocate_ip G [] = None \<or> allocate_ip G [allocate_ip G []] = None)"

text \<open>
  The addresses recorded in the store that an allocation really returned: the \<open>addr\<close>
  values that are not \<open>None\<close>.
\<close>

definition assigned :: "store \<Rightarrow> string option list" where
  "assigned G = filter (\<lambda>a. a \<noteq> None) (store_addrs G)"

text \<open>
  A request allocates when it is a create request whose body parses. No creation
  served along \<open>rs\<close>, starting from \<open>G\<close>, met an exhausted allocator:
\<close>

fun allocates :: "request \<Rightarrow> bool" where
  "allocates (POST uuid b) = (case parse_post b of Inl _ \<Rightarrow> False | Inr _ \<Rightarrow> True)"
| "allocates _ = False"

fun no_exhaustion :: "store \<Rightarrow> request list \<Rightarrow> bool" where
  "no_exhaustion G [] = True"
| "no_exhaustion G (r # rs) =
     ((allocates r \<longrightarrow> \<not> exhausted G) \<and> no_exhaustion (snd (handle G r)) rs)"

text \<open>
  A run that fills the subnet: \<open>posts n\<close> is \<open>n\<close> create requests, the \<open>k\<close>-th drawing the
  identifier \<open>dec k\<close>, and \<open>crowded\<close> is the store after the seeded store has served
  32765 of them, when 65534 of the 65535 usable addresses are recorded.
\<close>

fun posts :: "nat \<Rightarrow> request list" where
  "posts 0 = []"
| "posts (Suc n) = posts n @ [POST (dec n) \<lparr>b_name = Value ''X'', b_memsize = Absent\<rparr>]"

definition crowded :: store where
  "crowded = serve (bootstrap ''a'' ''b'') (posts 32765)"

section \<open>Properties\<close>

subsection \<open>Parsing and construction\<close>

lemma parse_put_cases:
  "parse_put b =
     (if b_name b = Invalid then Inl (BadRequest ''name'')
      else if b_memsize b = Invalid then Inl (BadRequest ''memsize'')
      else Inr \<lparr>a_name = (case b_name b of Value n \<Rightarrow> Some n | _ \<Rightarrow> None),
               a_memsize = (case b_memsize b of Value m \<Rightarrow> Some m | _ \<Rightarrow> Some 0.5)\<rparr>)"
  by (simp add: parse_put_def parse_arg_def split: field.splits)

lemma parse_post_cases:
  "parse_post b =
     (if b_name b = Invalid \<or> b_name b = Absent then Inl (BadRequest ''name'')
      else if b_memsize b = Invalid then Inl (BadRequest ''memsize'')
      else Inr \<lparr>a_name = (case b_name b of Value n \<Rightarrow> Some n | _ \<Rightarrow> None),
               a_memsize = (case b_memsize b of Value m \<Rightarrow> Some m | _ \<Rightarrow> Some 0.5)\<rparr>)"
  by (simp add: parse_post_def parse_arg_def split: field.splits)

lemma create_group_fields [simp]:
  "g_name (create_group G u n m) = n"
  "g_id (create_group G u n m) = u"
  "g_memsize (create_group G u n m) = m"
  "g_type (create_group G u n m) = ''memcached''"
  "g_state (create_group G u n m) = \<lparr>s_id = ''1'', s_name = ''OK'', s_type = ''passing''\<rparr>"
  by (simp_all add: create_group_def Let_def)

lemma map_of_bootstrap_second:
  "map_of (bootstrap u1 u2) u2 =
     Some (create_group [(u1, create_group [] u1 ''memcached for Bob'' 0.5)] u2
             ''memcached for Alice'' 1.2)"
  by (simp add: bootstrap_def Let_def update_conv')

subsection \<open>Update\<close>

text \<open>
  C1. The claim: an update of an identifier that is not in the store fails with 404
  before the body is parsed, and leaves the store alone. \<open>Group.put\<close> never calls
  \<open>abort_if_group_doesnt_exist\<close>, as \<open>Group.get\<close> and \<open>Group.delete\<close> do. On the
  seeded store and the unknown identifier \<open>c\<close> the update parses the body first and
  then ends in the \<open>KeyError\<close> of \<open>GROUPS[group_id]\<close>, not in a 404; read and delete of
  the same identifier answer 404; and a body whose \<open>memsize\<close> is not a number is
  answered 400, so the body is parsed before the identifier is looked at. Only the
  last part of the claim holds: the store is unchanged.
\<close>

theorem put_unknown_group_key_error:
  "put (bootstrap ''a'' ''b'') ''c'' \<lparr>b_name = Value ''n'', b_memsize = Absent\<rparr>
     = (Inl (KeyError ''c''), bootstrap ''a'' ''b'')
   \<and> fst (get (bootstrap ''a'' ''b'') ''c'') = Inl (NotFound (not_found_message ''c''))
   \<and> fst (delete (bootstrap ''a'' ''b'') ''c'') = Inl (NotFound (not_found_message ''c''))
   \<and> put (bootstrap ''a'' ''b'') ''c'' \<lparr>b_name = Value ''n'', b_memsize = Invalid\<rparr>
     = (Inl (BadRequest ''memsize''), bootstrap ''a'' ''b'')"
proof -
  have absent: "map_of (bootstrap ''a'' ''b'') ''c'' = None"
    by (simp add: bootstrap_def Let_def update_conv')
  show ?thesis
    by (simp add: put_def get_def delete_def parse_put_cases absent
        abort_if_group_doesnt_exist_def in_store_def)
qed

text \<open>No update is ever answered 404, whatever the store, the identifier and the body.\<close>

lemma put_never_404: "status (fst (put G group_id b)) \<noteq> 404"
  by (auto simp: put_def status_def Let_def parse_put_cases
      split: sum.splits option.splits if_splits)

text \<open>
  C2. The claim: an update that sends only \<open>name\<close> leaves \<open>memsize\<close> as it was. The
  parser of \<open>Group.put\<close> gives \<open>memsize\<close> the default 0.5, which is truthy, so the
  guard \<open>if args['memsize']\<close> lets it through: the second seeded group, created with
  \<open>memsize\<close> 1.2, has \<open>memsize\<close> 0.5 after an update that only renames it. This holds
  for every pair of identifiers drawn at start-up.
\<close>

theorem put_name_only_resets_memsize:
  "map_option g_memsize (map_of (bootstrap u1 u2) u2) = Some 1.2
   \<and> map_option g_memsize
        (map_of (snd (put (bootstrap u1 u2) u2 \<lparr>b_name = Value ''Carol'', b_memsize = Absent\<rparr>)) u2)
       = Some 0.5"
  by (simp add: map_of_bootstrap_second put_def parse_put_cases Let_def update_conv')

text \<open>
  C6. For a stored group and an update whose body parses and carries a \<open>memsize\<close>
  value \<open>m\<close>: the update answers 201 with the group it stored, and that group's
  \<open>memsize\<close> is the old one when \<open>m\<close> is zero and \<open>m\<close> otherwise.
\<close>

theorem put_memsize_applied_iff_nonzero:
  assumes "map_of G group_id = Some grp"
    and "b_name b \<noteq> Invalid"
    and "b_memsize b = Value m"
  shows "\<exists>grp'. put G group_id b = (Inr (Group_body grp', 201), AList.update group_id grp' G)
           \<and> map_of (snd (put G group_id b)) group_id = Some grp'
           \<and> g_memsize grp' = (if m = 0 then g_memsize grp else m)"
  using assms
  by (cases "b_name b") (auto simp: put_def parse_put_cases Let_def update_conv')

theorem put_memsize_applied_iff_nonzero_witness:
  "map_option g_memsize
     (map_of (snd (put (bootstrap ''a'' ''b'') ''b'' \<lparr>b_name = Absent, b_memsize = Value 0\<rparr>)) ''b'')
     = Some 1.2
   \<and> map_option g_memsize
     (map_of (snd (put (bootstrap ''a'' ''b'') ''b'' \<lparr>b_name = Absent, b_memsize = Value 3\<rparr>)) ''b'')
     = Some 3"
  using put_memsize_applied_iff_nonzero [OF map_of_bootstrap_second [of "''a''" "''b''"],
      of "\<lparr>b_name = Absent, b_memsize = Value 0\<rparr>" 0]
    put_memsize_applied_iff_nonzero [OF map_of_bootstrap_second [of "''a''" "''b''"],
      of "\<lparr>b_name = Absent, b_memsize = Value 3\<rparr>" 3]
  by auto

text \<open>
  C10. For a stored group and an update whose \<open>name\<close> is there but empty: the group
  stored under the identifier afterwards has the name it had before, and when the
  \<open>memsize\<close> field parses the update answers 201 with that group.
\<close>

theorem put_empty_name_keeps_name:
  assumes "map_of G group_id = Some grp"
    and "b_name b = Value []"
  shows "\<exists>grp'. map_of (snd (put G group_id b)) group_id = Some grp'
           \<and> g_name grp' = g_name grp
           \<and> (b_memsize b \<noteq> Invalid \<longrightarrow> fst (put G group_id b) = Inr (Group_body grp', 201))"
  using assms
  by (cases "b_memsize b") (auto simp: put_def parse_put_cases Let_def update_conv')

theorem put_empty_name_keeps_name_witness:
  "map_option g_name
     (map_of (snd (put (bootstrap ''a'' ''b'') ''b'' \<lparr>b_name = Value [], b_memsize = Absent\<rparr>)) ''b'')
     = Some ''memcached for Alice''"
  using put_empty_name_keeps_name [OF map_of_bootstrap_second [of "''a''" "''b''"],
      of "\<lparr>b_name = Value [], b_memsize = Absent\<rparr>"]
  by auto

text \<open>What \<open>Group.put\<close> does to the group it updates and to the others.\<close>

lemma put_at_key:
  assumes "map_of G k = Some grp"
  shows "\<exists>grp'. map_of (snd (put G k b)) k = Some grp' \<and> same_fixed_fields grp grp'"
  using assms
  by (cases "b_name b"; cases "b_memsize b")
     (auto simp: put_def parse_put_cases Let_def update_conv' same_fixed_fields_def)

lemma put_other_key:
  "k \<noteq> group_id \<Longrightarrow> map_of (snd (put G group_id b)) k = map_of G k"
  by (auto simp: put_def Let_def update_conv' split: sum.splits option.splits)

lemma handle_keeps_fixed_fields:
  assumes "\<forall>b. r \<noteq> POST k b"
  shows "case map_of (snd (handle G r)) k of
           None \<Rightarrow> True
         | Some grp' \<Rightarrow> (\<exists>grp. map_of G k = Some grp \<and> same_fixed_fields grp grp')"
proof (cases r)
  case (POST u b)
  with assms have "u \<noteq> k" by auto
  then show ?thesis using POST
    by (auto simp: post_def Let_def update_conv' same_fixed_fields_def
        split: sum.splits option.splits prod.splits)
next
  case (GET g)
  then show ?thesis
    by (auto simp: get_def same_fixed_fields_def split: option.splits)
next
  case (PUT g b)
  show ?thesis
  proof (cases "k = g")
    case True
    show ?thesis
    proof (cases "map_of G k")
      case None
      then show ?thesis using PUT True
        by (auto simp: put_def split: sum.splits option.splits)
    next
      case (Some grp)
      from put_at_key [OF Some, of b] show ?thesis using PUT True Some by auto
    qed
  next
    case False
    then show ?thesis using PUT put_other_key [of k g G b]
      by (auto simp: same_fixed_fields_def split: option.splits)
  qed
next
  case (DELETE g)
  then show ?thesis
    by (auto simp: delete_def delete_conv' same_fixed_fields_def split: option.splits)
qed

lemma serve_keeps_fixed_fields:
  assumes "\<forall>b. POST k b \<notin> set rs"
  shows "case map_of (serve G rs) k of
           None \<Rightarrow> True
         | Some grp' \<Rightarrow> (\<exists>grp. map_of G k = Some grp \<and> same_fixed_fields grp grp')"
  using assms
proof (induction rs arbitrary: G)
  case Nil
  then show ?case by (auto simp: same_fixed_fields_def split: option.splits)
next
  case (Cons r rs)
  then have r: "\<forall>b. r \<noteq> POST k b" and rs: "\<forall>b. POST k b \<notin> set rs" by auto
  show ?case
  proof (cases "map_of (serve G (r # rs)) k")
    case None
    then show ?thesis by simp
  next
    case (Some grp')
    with Cons.IH [OF rs, of "snd (handle G r)"]
    obtain grp1 where 1: "map_of (snd (handle G r)) k = Some grp1" "same_fixed_fields grp1 grp'"
      by auto
    with handle_keeps_fixed_fields [OF r, of G]
    obtain grp where "map_of G k = Some grp" "same_fixed_fields grp grp1" by auto
    with 1 Some show ?thesis by (auto simp: same_fixed_fields_def)
  qed
qed

text \<open>
  C9. For a stored group and any update body, the group stored under the identifier
  after the update has the \<open>id\<close>, \<open>type\<close>, \<open>state\<close> and \<open>instances\<close> it had before.
  More generally, after any list of requests the group found under the identifier
  still has these four fields, as long as no creation among the requests drew this
  very identifier again (\<open>uuid4\<close> is taken never to repeat; a creation that did would
  replace the group by a new one).
\<close>

theorem update_changes_name_and_memsize_only:
  assumes "map_of G k = Some grp"
  shows "(\<exists>grp'. map_of (snd (put G k b)) k = Some grp' \<and> same_fixed_fields grp grp')
    \<and> (\<forall>rs grp'. (\<forall>b'. POST k b' \<notin> set rs) \<and> map_of (serve G rs) k = Some grp'
          \<longrightarrow> same_fixed_fields grp grp')"
proof
  show "\<exists>grp'. map_of (snd (put G k b)) k = Some grp' \<and> same_fixed_fields grp grp'"
    by (rule put_at_key [OF assms])
next
  show "\<forall>rs grp'. (\<forall>b'. POST k b' \<notin> set rs) \<and> map_of (serve G rs) k = Some grp'
          \<longrightarrow> same_fixed_fields grp grp'"
  proof (intro allI impI, elim conjE)
    fix rs grp'
    assume "\<forall>b'. POST k b' \<notin> set rs" and after: "map_of (serve G rs) k = Some grp'"
    from serve_keeps_fixed_fields [OF this(1), of G] after assms
    show "same_fixed_fields grp grp'" by auto
  qed
qed

theorem update_changes_name_and_memsize_only_witness:
  "map_option g_instances
     (map_of (serve (bootstrap ''a'' ''b'')
        [PUT ''b'' \<lparr>b_name = Value ''Carol'', b_memsize = Value 2\<rparr>, DELETE ''a'']) ''b'')
     = map_option g_instances (map_of (bootstrap ''a'' ''b'') ''b'')
   \<and> map_of (bootstrap ''a'' ''b'') ''b'' \<noteq> None"
proof -
  let ?b = "\<lparr>b_name = Value ''Carol'', b_memsize = Value 2\<rparr>"
  let ?rs = "[PUT ''b'' ?b, DELETE ''a'']"
  have no_post: "\<forall>b'. POST ''b'' b' \<notin> set ?rs" by simp
  have "map_of (serve (bootstrap ''a'' ''b'') ?rs) ''b'' \<noteq> None"
    by (simp add: put_def parse_put_cases delete_def abort_if_group_doesnt_exist_def
        in_store_def map_of_bootstrap_second Let_def update_conv' delete_conv')
  then obtain grp' where after: "map_of (serve (bootstrap ''a'' ''b'') ?rs) ''b'' = Some grp'"
    by blast
  from update_changes_name_and_memsize_only [OF map_of_bootstrap_second [of "''a''" "''b''"], of ?b]
    no_post after
  have "same_fixed_fields
          (create_group [(''a'', create_group [] ''a'' ''memcached for Bob'' 0.5)] ''b''
             ''memcached for Alice'' 1.2) grp'"
    by blast
  with after show ?thesis
    by (simp add: map_of_bootstrap_second same_fixed_fields_def)
qed

subsection \<open>Delete and read\<close>

lemma message_names_group: "\<exists>p s. not_found_message group_id = p @ group_id @ s"
  unfolding not_found_message_def by blast


text \<open>
  C8. Delete of an identifier that is not stored answers 404 with a message that
  contains the identifier and returns the store as it was. Delete of a stored
  identifier answers 204 with an empty body and removes that entry and no other; a
  read of the identifier on the store it leaves answers 404.
\<close>

theorem delete_unknown_and_known:
  "(\<not> in_store group_id G \<longrightarrow>
      delete G group_id = (Inl (NotFound (not_found_message group_id)), G)
      \<and> status (fst (delete G group_id)) = 404
      \<and> (\<exists>p s. not_found_message group_id = p @ group_id @ s))
   \<and> (in_store group_id G \<longrightarrow>
      delete G group_id = (Inr (Empty_body, 204), AList.delete group_id G)
      \<and> status (fst (delete G group_id)) = 204
      \<and> map_of (snd (delete G group_id)) group_id = None
      \<and> (\<forall>k. k \<noteq> group_id \<longrightarrow> map_of (snd (delete G group_id)) k = map_of G k)
      \<and> fst (get (snd (delete G group_id)) group_id)
          = Inl (NotFound (not_found_message group_id))
      \<and> status (fst (get (snd (delete G group_id)) group_id)) = 404)"
  using message_names_group [of group_id]
  by (simp add: delete_def get_def abort_if_group_doesnt_exist_def in_store_def status_def
      delete_conv')

theorem delete_unknown_and_known_witness:
  "\<not> in_store ''c'' (bootstrap ''a'' ''b'') \<and> in_store ''b'' (bootstrap ''a'' ''b'')
   \<and> status (fst (delete (bootstrap ''a'' ''b'') ''c'')) = 404
   \<and> snd (delete (bootstrap ''a'' ''b'') ''c'') = bootstrap ''a'' ''b''
   \<and> status (fst (delete (bootstrap ''a'' ''b'') ''b'')) = 204
   \<and> status (fst (get (snd (delete (bootstrap ''a'' ''b'') ''b'')) ''b'')) = 404"
proof -
  have c: "\<not> in_store ''c'' (bootstrap ''a'' ''b'')"
    by (simp add: in_store_def bootstrap_def Let_def update_conv')
  have b: "in_store ''b'' (bootstrap ''a'' ''b'')"
    by (simp add: in_store_def map_of_bootstrap_second)
  show ?thesis
    using c b delete_unknown_and_known [of "''c''" "bootstrap ''a'' ''b''"]
      delete_unknown_and_known [of "''b''" "bootstrap ''a'' ''b''"]
    by (auto simp: status_def)
qed

subsection \<open>Create\<close>

text \<open>
  C7, as stated, fails: a create request whose \<open>name\<close> is there but empty is not
  rejected. \<open>required=True\<close> makes the parser reject a request without the field; a
  field that was sent, even empty, is a value. On the empty store the request is
  answered 201 and a group with the empty name is stored.
\<close>

theorem post_empty_name_accepted:
  "status (fst (post [] ''c0ffee'' \<lparr>b_name = Value [], b_memsize = Absent\<rparr>)) = 201
   \<and> map_option g_name
        (map_of (snd (post [] ''c0ffee'' \<lparr>b_name = Value [], b_memsize = Absent\<rparr>)) ''c0ffee'')
       = Some []"
  by (simp add: post_def parse_post_cases status_def Let_def)

text \<open>
  C7, amended: create fails with 400 when \<open>name\<close> is missing, and nothing is stored;
  with a \<open>name\<close> value and no \<open>memsize\<close> it answers 201 with the group it stored
  under the new identifier, whose \<open>memsize\<close> is 0.5.
\<close>

theorem post_validation_and_default:
  "(b_name b = Absent \<longrightarrow>
      post G uuid b = (Inl (BadRequest ''name''), G) \<and> status (fst (post G uuid b)) = 400)
   \<and> (\<forall>n. b_name b = Value n \<and> b_memsize b = Absent \<longrightarrow>
        (\<exists>grp. post G uuid b = (Inr (Group_body grp, 201), AList.update uuid grp G)
           \<and> map_of (snd (post G uuid b)) uuid = Some grp
           \<and> g_name grp = n \<and> g_memsize grp = 0.5))"
  by (simp add: post_def parse_post_cases status_def Let_def update_conv')

theorem post_validation_and_default_witness:
  "status (fst (post [] ''c0ffee'' \<lparr>b_name = Absent, b_memsize = Absent\<rparr>)) = 400
   \<and> map_option g_memsize
        (map_of (snd (post [] ''c0ffee'' \<lparr>b_name = Value ''X'', b_memsize = Absent\<rparr>)) ''c0ffee'')
       = Some 0.5"
  using post_validation_and_default [of "\<lparr>b_name = Absent, b_memsize = Absent\<rparr>" "[]" "''c0ffee''"]
    post_validation_and_default [of "\<lparr>b_name = Value ''X'', b_memsize = Absent\<rparr>" "[]" "''c0ffee''"]
  by auto

subsection \<open>The address allocator\<close>

text \<open>The loop returns nothing exactly when every address it visits is excluded.\<close>

lemma scan_None_iff:
  "scan n a ex = None \<longleftrightarrow> (\<forall>i<n. Some (str_ip (a + i)) \<in> ex)"
proof (induction n arbitrary: a)
  case 0
  show ?case by simp
next
  case (Suc n)
  show ?case
  proof (cases "Some (str_ip a) \<in> ex")
    case False
    then show ?thesis by force
  next
    case True
    have "(\<forall>i<Suc n. Some (str_ip (a + i)) \<in> ex) \<longleftrightarrow> (\<forall>i<n. Some (str_ip (Suc a + i)) \<in> ex)"
    proof
      assume h: "\<forall>i<Suc n. Some (str_ip (a + i)) \<in> ex"
      show "\<forall>i<n. Some (str_ip (Suc a + i)) \<in> ex"
      proof (intro allI impI)
        fix i assume "i < n"
        then have "Suc i < Suc n" by simp
        with h have "Some (str_ip (a + Suc i)) \<in> ex" by blast
        then show "Some (str_ip (Suc a + i)) \<in> ex" by simp
      qed
    next
      assume h: "\<forall>i<n. Some (str_ip (Suc a + i)) \<in> ex"
      show "\<forall>i<Suc n. Some (str_ip (a + i)) \<in> ex"
      proof (intro allI impI)
        fix i assume i: "i < Suc n"
        show "Some (str_ip (a + i)) \<in> ex"
        proof (cases i)
          case 0
          with True show ?thesis by simp
        next
          case (Suc j)
          with i h have "Some (str_ip (Suc a + j)) \<in> ex" by simp
          with Suc show ?thesis by simp
        qed
      qed
    qed
    with True Suc.IH [of "Suc a"] show ?thesis by simp
  qed
qed

text \<open>
  When the loop returns an address, it is one of those visited, it is not excluded, and
  every address visited before it is.
\<close>

lemma scan_Some:
  "scan n a ex = Some s \<Longrightarrow>
     \<exists>i<n. s = str_ip (a + i) \<and> Some s \<notin> ex \<and> (\<forall>j<i. Some (str_ip (a + j)) \<in> ex)"
proof (induction n arbitrary: a)
  case 0
  then show ?case by simp
next
  case (Suc n)
  show ?case
  proof (cases "Some (str_ip a) \<in> ex")
    case False
    with Suc.prems have "s = str_ip a" by simp
    with False have "s = str_ip (a + 0) \<and> Some s \<notin> ex \<and> (\<forall>j<0. Some (str_ip (a + j)) \<in> ex)"
      by simp
    then show ?thesis by blast
  next
    case True
    with Suc.prems have "scan n (Suc a) ex = Some s" by simp
    from Suc.IH [OF this] obtain i where i: "i < n" "s = str_ip (Suc a + i)" "Some s \<notin> ex"
      "\<forall>j<i. Some (str_ip (Suc a + j)) \<in> ex" by blast
    have "\<forall>j<Suc i. Some (str_ip (a + j)) \<in> ex"
    proof (intro allI impI)
      fix j assume j: "j < Suc i"
      show "Some (str_ip (a + j)) \<in> ex"
      proof (cases j)
        case 0
        with True show ?thesis by simp
      next
        case (Suc j')
        with j i(4) have "Some (str_ip (Suc a + j')) \<in> ex" by simp
        with Suc show ?thesis by simp
      qed
    qed
    with i have "Suc i < Suc n \<and> s = str_ip (a + Suc i) \<and> Some s \<notin> ex
        \<and> (\<forall>j<Suc i. Some (str_ip (a + j)) \<in> ex)" by simp
    then show ?thesis by blast
  qed
qed

text \<open>Unfolding the loop on a numeral, for evaluating it on concrete stores.\<close>

lemma scan_numeral:
  "scan (numeral k) a ex =
     (if Some (str_ip a) \<notin> ex then Some (str_ip a) else scan (pred_numeral k) (Suc a) ex)"
  by (simp add: numeral_eq_Suc)

lemma network_address_text: "network_address = ''172.20.0.0''"
  by (simp add: network_address_def ALLOC_SUBNET_def)

text \<open>\<open>allocated_ips\<close> collects exactly the addresses recorded on the instances.\<close>

lemma store_addrs_iff:
  "a \<in> set (store_addrs G) \<longleftrightarrow> (\<exists>(k, g)\<in>set G. \<exists>inst\<in>set (g_instances g). i_addr inst = a)"
  by (auto simp: store_addrs_def)

lemma unavailable_iff:
  "unavailable G skip s \<longleftrightarrow>
     s = network_address \<or> Some s \<in> set (store_addrs G) \<or> Some s \<in> set skip"
  by (simp add: unavailable_def store_addrs_iff network_address_text)

lemma except_list_unavailable:
  "Some s \<in> {Some network_address} \<union> set (store_addrs G) \<union> set skip \<longleftrightarrow> unavailable G skip s"
  by (auto simp: unavailable_iff)

lemma allocate_ip_Some:
  assumes "allocate_ip G skip = Some s"
  shows "\<exists>i<net_size. s = subnet_addr i \<and> \<not> unavailable G skip s
            \<and> (\<forall>j<i. unavailable G skip (subnet_addr j))"
proof -
  from assms
  have "scan net_size net_first ({Some network_address} \<union> set (store_addrs G) \<union> set skip)
      = Some s"
    by (simp add: allocate_ip_def Let_def)
  from scan_Some [OF this] show ?thesis
    unfolding except_list_unavailable subnet_addr_def .
qed

lemmas eval_addr = allocate_ip_def store_addrs_def network_address_def ALLOC_SUBNET_def
  net_size_def net_first_def str_ip_def dec.simps digit_def scan_numeral Let_def

lemma allocate_empty: "allocate_ip [] [] = Some ''172.20.0.1''"
  by (simp add: eval_addr)

lemma allocate_two: "allocate_ip [] [Some ''172.20.0.1''] = Some ''172.20.0.2''"
  by (simp add: eval_addr)

subsection \<open>The text of a subnet address\<close>

lemma dec_172: "dec 172 = ''172''" and dec_20: "dec 20 = ''20''"
  by (simp_all add: dec.simps digit_def)

lemma octets_of_subnet:
  assumes i: "i < 65536"
  shows "(2886991872 + i) div 16777216 mod 256 = (172::nat)"
    and "(2886991872 + i) div 65536 mod 256 = (20::nat)"
    and "(2886991872 + i) div 256 mod 256 = i div 256"
    and "(2886991872 + i) mod 256 = i mod 256"
proof -
  have "172 * 16777216 \<le> 2886991872 + i" by simp
  moreover have "2886991872 + i < 173 * 16777216" using i by simp
  ultimately have "(2886991872 + i) div 16777216 = 172"
    by (simp add: div_nat_eqI)
  then show "(2886991872 + i) div 16777216 mod 256 = (172::nat)" by simp
next
  have "(2886991872 + i) div 65536 = 44052 + i div 65536" by simp
  with i show "(2886991872 + i) div 65536 mod 256 = (20::nat)" by simp
next
  have "(2886991872 + i) div 256 = 11277312 + i div 256" by simp
  moreover have "i div 256 < 256" using i by simp
  moreover have "(11277312::nat) = 256 * 44052" by simp
  ultimately show "(2886991872 + i) div 256 mod 256 = i div 256"
    by (metis mod_mult_self4 mod_less)
next
  have "(2886991872::nat) = 256 * 11277312" by simp
  then show "(2886991872 + i) mod 256 = i mod 256" by (metis mod_mult_self4)
qed

lemma subnet_addr_text:
  assumes "i < net_size"
  shows "subnet_addr i = ''172.20.'' @ dec (i div 256) @ ''.'' @ dec (i mod 256)"
proof -
  from assms have i: "i < 65536" by (simp add: net_size_def)
  show ?thesis
    using octets_of_subnet [OF i]
    by (simp add: subnet_addr_def str_ip_def net_first_def dec_172 dec_20)
qed

lemma subnet_addr_in_subnet: "i < net_size \<Longrightarrow> in_subnet (subnet_addr i)"
proof -
  assume i: "i < net_size"
  then have "i div 256 < 256" "i mod 256 < 256" by (simp_all add: net_size_def)
  with subnet_addr_text [OF i] show ?thesis
    unfolding in_subnet_def by blast
qed

lemma allocate_ip_fresh:
  assumes "allocate_ip G skip = Some s"
  shows "in_subnet s" and "s \<noteq> network_address" and "Some s \<notin> set (store_addrs G)"
    and "Some s \<notin> set skip"
  using allocate_ip_Some [OF assms] subnet_addr_in_subnet
  by (auto simp: unavailable_iff)

subsection \<open>Different addresses have different texts\<close>

lemma digit_inj: "d < 10 \<Longrightarrow> e < 10 \<Longrightarrow> digit d = digit e \<Longrightarrow> d = e"
proof -
  assume "d < 10" "e < 10" "digit d = digit e"
  moreover have "distinct ''0123456789''" by simp
  ultimately show "d = e"
    by (simp add: digit_def nth_eq_iff_index_eq)
qed

lemma digit_not_dot: "d < 10 \<Longrightarrow> digit d \<noteq> CHR ''.''"
proof -
  assume "d < 10"
  then have "digit d \<in> set ''0123456789''"
    unfolding digit_def by (intro nth_mem) simp
  then show ?thesis by auto
qed

lemma dec_nonempty: "dec n \<noteq> []"
  by (subst dec.simps) simp

lemma dot_notin_dec: "CHR ''.'' \<notin> set (dec n)"
proof (induction n rule: dec.induct)
  case (1 n)
  show ?case
  proof (cases "n < 10")
    case True
    then show ?thesis using digit_not_dot [of n] by (subst dec.simps) auto
  next
    case False
    have "n mod 10 < 10" by simp
    from digit_not_dot [OF this] "1" [OF False] False show ?thesis
      by (subst dec.simps) auto
  qed
qed

lemma dec_inj: "dec n = dec m \<Longrightarrow> n = m"
proof (induction n arbitrary: m rule: dec.induct)
  case (1 n)
  show ?case
  proof (cases "n < 10")
    case n: True
    show ?thesis
    proof (cases "m < 10")
      case True
      with n "1.prems" digit_inj [of n m] show ?thesis
        by (simp add: dec.simps [of n] dec.simps [of m])
    next
      case False
      with n "1.prems" dec_nonempty [of "m div 10"] show ?thesis
        by (simp add: dec.simps [of n] dec.simps [of m])
    qed
  next
    case n: False
    show ?thesis
    proof (cases "m < 10")
      case True
      with n "1.prems" dec_nonempty [of "n div 10"] show ?thesis
        by (simp add: dec.simps [of n] dec.simps [of m])
    next
      case False
      with n "1.prems"
      have eq: "dec (n div 10) = dec (m div 10)" "digit (n mod 10) = digit (m mod 10)"
        by (simp_all add: dec.simps [of n] dec.simps [of m])
      from "1.IH" [OF n eq(1)] have "n div 10 = m div 10" .
      moreover from digit_inj [OF _ _ eq(2)] have "n mod 10 = m mod 10" by simp
      ultimately show ?thesis by (metis div_mult_mod_eq)
    qed
  qed
qed

lemma subnet_addr_inj:
  assumes "i < net_size" and "j < net_size" and "subnet_addr i = subnet_addr j"
  shows "i = j"
proof -
  from assms subnet_addr_text
  have "dec (i div 256) @ CHR ''.'' # dec (i mod 256) = dec (j div 256) @ CHR ''.'' # dec (j mod 256)"
    by simp
  with dot_notin_dec have "dec (i div 256) = dec (j div 256) \<and> dec (i mod 256) = dec (j mod 256)"
    by (simp add: append_Cons_eq_iff)
  then have "i div 256 = j div 256" "i mod 256 = j mod 256"
    by (auto dest: dec_inj)
  then show ?thesis by (metis div_mult_mod_eq)
qed

subsection \<open>Room in the subnet\<close>

text \<open>
  The subnet has \<open>net_size - 1\<close> addresses besides the network address. When
  \<open>allocate_ip\<close> returns nothing, each of them is recorded in the store or listed in
  \<open>skip\<close>.
\<close>

lemma allocate_ip_None_length:
  assumes "allocate_ip G skip = None"
  shows "net_size - 1 \<le> length (store_addrs G) + length skip"
proof -
  let ?A = "(\<lambda>i. Some (subnet_addr i)) ` {1..<net_size}"
  from assms have all: "\<forall>i<net_size. unavailable G skip (subnet_addr i)"
    by (simp add: allocate_ip_def Let_def scan_None_iff subnet_addr_def
        except_list_unavailable [symmetric])
  have zero: "subnet_addr 0 = network_address"
    by (simp add: subnet_addr_def str_ip_def net_first_def network_address_text dec.simps digit_def)
  have "?A \<subseteq> set (store_addrs G) \<union> set skip"
  proof
    fix x assume "x \<in> ?A"
    then obtain i where i: "1 \<le> i" "i < net_size" "x = Some (subnet_addr i)" by auto
    have "0 < net_size" by (simp add: net_size_def)
    with i subnet_addr_inj [of i 0] zero have "subnet_addr i \<noteq> network_address" by auto
    with all i show "x \<in> set (store_addrs G) \<union> set skip"
      by (auto simp: unavailable_iff)
  qed
  then have "card ?A \<le> card (set (store_addrs G) \<union> set skip)"
    by (intro card_mono) auto
  also have "\<dots> \<le> card (set (store_addrs G)) + card (set skip)"
    by (rule card_Un_le)
  also have "\<dots> \<le> length (store_addrs G) + length skip"
    by (intro add_mono card_length)
  finally have "card ?A \<le> length (store_addrs G) + length skip" .
  moreover have "inj_on (\<lambda>i. Some (subnet_addr i)) {1..<net_size}"
    by (rule inj_onI) (auto dest: subnet_addr_inj)
  then have "card ?A = net_size - 1"
    by (simp add: card_image)
  ultimately show ?thesis by simp
qed

lemma room_not_exhausted:
  assumes "length (store_addrs G) \<le> 65533"
  shows "\<not> exhausted G"
proof -
  have n: "net_size - 1 = 65535" by (simp add: net_size_def)
  from allocate_ip_None_length [of G "[]"] assms n have "allocate_ip G [] \<noteq> None"
    by auto
  moreover from allocate_ip_None_length [of G "[allocate_ip G []]"] assms n
  have "allocate_ip G [allocate_ip G []] \<noteq> None"
    by auto
  ultimately show ?thesis by (simp add: exhausted_def)
qed

subsection \<open>Address uniqueness\<close>

text \<open>How the handlers change the list of recorded addresses.\<close>

lemma store_addrs_Nil [simp]: "store_addrs [] = []"
  by (simp add: store_addrs_def)

lemma store_addrs_Cons [simp]:
  "store_addrs ((k, g) # G) = map i_addr (g_instances g) @ store_addrs G"
  by (simp add: store_addrs_def)

lemma set_store_addrs_update:
  "set (store_addrs (AList.update k g G)) \<subseteq> set (map i_addr (g_instances g)) \<union> set (store_addrs G)"
  by (induction G) auto

lemma set_store_addrs_delete:
  "set (store_addrs (AList.delete k G)) \<subseteq> set (store_addrs G)"
  by (induction G) auto

lemma distinct_assigned_update:
  assumes "distinct (assigned G)"
    and "distinct (filter (\<lambda>a. a \<noteq> None) (map i_addr (g_instances g)))"
    and "\<forall>a\<in>set (map i_addr (g_instances g)). a \<noteq> None \<longrightarrow> a \<notin> set (store_addrs G)"
  shows "distinct (assigned (AList.update k g G))"
  using assms
proof (induction G)
  case Nil
  then show ?case by (simp add: assigned_def)
next
  case (Cons p G)
  obtain k' g' where p: "p = (k', g')" by (cases p)
  show ?case
  proof (cases "k' = k")
    case True
    with Cons.prems p show ?thesis
      by (auto simp: assigned_def)
  next
    case False
    from Cons.prems p have "distinct (assigned G)"
      and fresh: "\<forall>a\<in>set (map i_addr (g_instances g)). a \<noteq> None \<longrightarrow> a \<notin> set (store_addrs G)"
      by (auto simp: assigned_def)
    with Cons.IH Cons.prems(2) have IH: "distinct (assigned (AList.update k g G))" by blast
    have sub: "set (store_addrs (AList.update k g G))
        \<subseteq> set (map i_addr (g_instances g)) \<union> set (store_addrs G)"
      by (rule set_store_addrs_update)
    from Cons.prems p
    have old: "\<forall>a\<in>set (map i_addr (g_instances g')). a \<noteq> None \<longrightarrow>
        a \<notin> set (store_addrs G) \<and> a \<notin> set (map i_addr (g_instances g))"
      by (fastforce simp: assigned_def)
    from Cons.prems(1) p
    have dold: "distinct (filter (\<lambda>a. a \<noteq> None) (map i_addr (g_instances g')))"
      by (simp add: assigned_def)
    from False p IH sub old dold show ?thesis
      by (auto simp: assigned_def)
  qed
qed

lemma distinct_assigned_delete:
  "distinct (assigned G) \<Longrightarrow> distinct (assigned (AList.delete k G))"
proof (induction G)
  case Nil
  then show ?case by simp
next
  case (Cons p G)
  obtain k' g' where p: "p = (k', g')" by (cases p)
  from Cons p have IH: "distinct (assigned (AList.delete k G))"
    by (simp add: assigned_def)
  have sub: "set (store_addrs (AList.delete k G)) \<subseteq> set (store_addrs G)"
    by (rule set_store_addrs_delete)
  from Cons.prems p IH sub show ?case
    by (auto simp: assigned_def)
qed

lemma store_addrs_update_same_instances:
  "map_of G k = Some g \<Longrightarrow> g_instances g' = g_instances g \<Longrightarrow>
     store_addrs (AList.update k g' G) = store_addrs G"
  by (induction G) (auto split: if_splits)

lemma put_store_cases:
  "snd (put G k b) = G
   \<or> (\<exists>grp grp'. map_of G k = Some grp \<and> g_instances grp' = g_instances grp
         \<and> snd (put G k b) = AList.update k grp' G)"
proof (cases "parse_put b")
  case (Inl e)
  then show ?thesis by (simp add: put_def)
next
  case (Inr a)
  show ?thesis
  proof (cases "map_of G k")
    case None
    with Inr show ?thesis by (simp add: put_def)
  next
    case (Some grp)
    let ?g1 = "case a_name a of
                 Some n \<Rightarrow> if truthy_str (a_name a) then grp\<lparr>g_name := n\<rparr> else grp
               | None \<Rightarrow> grp"
    let ?g2 = "case a_memsize a of
                 Some m \<Rightarrow> if truthy_float (a_memsize a) then ?g1\<lparr>g_memsize := m\<rparr> else ?g1
               | None \<Rightarrow> ?g1"
    have "g_instances ?g2 = g_instances grp"
      by (simp split: option.splits)
    moreover from Inr Some have "snd (put G k b) = AList.update k ?g2 G"
      by (simp add: put_def Let_def)
    ultimately show ?thesis using Some by blast
  qed
qed

lemma put_store_addrs: "store_addrs (snd (put G k b)) = store_addrs G"
  using put_store_cases [of G k b] store_addrs_update_same_instances by fastforce

lemma create_group_addrs:
  "map i_addr (g_instances (create_group G u n m))
     = [allocate_ip G [], allocate_ip G [allocate_ip G []]]"
  by (simp add: create_group_def Let_def)

lemma allocate_ip_not_stored:
  "allocate_ip G skip = Some s \<Longrightarrow> Some s \<notin> set (store_addrs G) \<and> Some s \<notin> set skip"
  using allocate_ip_fresh by blast

lemma distinct_assigned_create:
  assumes "distinct (assigned G)"
  shows "distinct (assigned (AList.update k (create_group G u n m) G))"
proof (rule distinct_assigned_update [OF assms])
  show "distinct (filter (\<lambda>a. a \<noteq> None) (map i_addr (g_instances (create_group G u n m))))"
    using allocate_ip_not_stored [of G "[allocate_ip G []]"]
    by (auto simp: create_group_addrs)
next
  show "\<forall>a\<in>set (map i_addr (g_instances (create_group G u n m))).
          a \<noteq> None \<longrightarrow> a \<notin> set (store_addrs G)"
    using allocate_ip_not_stored [of G "[]"] allocate_ip_not_stored [of G "[allocate_ip G []]"]
    by (auto simp: create_group_addrs)
qed

lemma handle_distinct_assigned:
  assumes "distinct (assigned G)"
  shows "distinct (assigned (snd (handle G r)))"
proof (cases r)
  case (POST u b)
  with assms show ?thesis
    by (auto simp: post_def Let_def distinct_assigned_create
        split: sum.splits option.splits)
next
  case (GET k)
  with assms show ?thesis by (auto simp: get_def split: option.splits)
next
  case (PUT k b)
  with assms show ?thesis by (simp add: assigned_def put_store_addrs)
next
  case (DELETE k)
  with assms show ?thesis by (auto simp: delete_def distinct_assigned_delete split: option.splits)
qed

lemma serve_distinct_assigned:
  "distinct (assigned G) \<Longrightarrow> distinct (assigned (serve G rs))"
  by (induction rs arbitrary: G) (simp_all add: handle_distinct_assigned)

lemma bootstrap_distinct_assigned: "distinct (assigned (bootstrap u1 u2))"
proof -
  have "distinct (assigned [])" by (simp add: assigned_def)
  then have "distinct (assigned (AList.update u1 (create_group [] u1 ''memcached for Bob'' 0.5) []))"
    by (rule distinct_assigned_create)
  then show ?thesis
    unfolding bootstrap_def Let_def create_group_fields
    by (rule distinct_assigned_create)
qed

lemma handle_no_None:
  assumes "None \<notin> set (store_addrs G)" and "allocates r \<longrightarrow> \<not> exhausted G"
  shows "None \<notin> set (store_addrs (snd (handle G r)))"
proof (cases r)
  case (POST u b)
  show ?thesis
  proof (cases "parse_post b")
    case (Inl e)
    with POST assms show ?thesis by (simp add: post_def)
  next
    case (Inr a)
    with POST assms have ne: "\<not> exhausted G" by simp
    then have "None \<notin> set (map i_addr (g_instances (create_group G u n m)))" for n m
      by (auto simp: create_group_addrs exhausted_def)
    with assms(1) set_store_addrs_update
    have "None \<notin> set (store_addrs (AList.update u (create_group G u n m) G))" for n m
      by blast
    with POST Inr assms(1) show ?thesis
      by (auto simp: post_def Let_def split: option.splits)
  qed
next
  case (GET k)
  with assms show ?thesis by (auto simp: get_def split: option.splits)
next
  case (PUT k b)
  with assms show ?thesis by (simp add: put_store_addrs)
next
  case (DELETE k)
  with assms set_store_addrs_delete [of k G] show ?thesis
    by (auto simp: delete_def split: option.splits)
qed

lemma serve_no_None:
  "None \<notin> set (store_addrs G) \<Longrightarrow> no_exhaustion G rs \<Longrightarrow> None \<notin> set (store_addrs (serve G rs))"
  by (induction rs arbitrary: G) (simp_all add: handle_no_None)

lemma store_addrs_first_group:
  "store_addrs [(u, create_group [] u n m)] = [Some ''172.20.0.1'', Some ''172.20.0.2'']"
  by (simp add: create_group_addrs allocate_empty allocate_two)

lemmas eval_scan = network_address_text net_size_def net_first_def str_ip_def dec.simps
  digit_def scan_numeral Let_def

lemma allocate_three:
  "allocate_ip [(u, create_group [] u n m)] [] = Some ''172.20.0.3''"
  unfolding allocate_ip_def store_addrs_first_group
  by (simp add: eval_scan)

lemma allocate_four:
  "allocate_ip [(u, create_group [] u n m)] [Some ''172.20.0.3''] = Some ''172.20.0.4''"
  unfolding allocate_ip_def store_addrs_first_group
  by (simp add: eval_scan)

lemma store_addrs_bootstrap:
  "store_addrs (bootstrap u1 u2) =
     (if u1 = u2 then [Some ''172.20.0.3'', Some ''172.20.0.4'']
      else [Some ''172.20.0.1'', Some ''172.20.0.2'', Some ''172.20.0.3'', Some ''172.20.0.4''])"
  by (simp add: bootstrap_def Let_def create_group_addrs allocate_empty allocate_two
      allocate_three allocate_four)

lemma filter_not_None_id:
  "None \<notin> set xs \<Longrightarrow> filter (\<lambda>a. a \<noteq> None) xs = xs"
proof (rule filter_True, rule ballI)
  fix x assume "None \<notin> set xs" and "x \<in> set xs"
  then show "x \<noteq> None" by (intro notI) (simp only:)
qed

text \<open>
  Every group has two instances and every request adds at most one group, so the
  allocator cannot be exhausted before the store holds 32767 groups.
\<close>

lemma length_store_addrs:
  "\<forall>p\<in>set G. length (g_instances (snd p)) = 2 \<Longrightarrow> length (store_addrs G) = 2 * length G"
  by (induction G) auto

lemma set_update_subset: "set (AList.update k v G) \<subseteq> insert (k, v) (set G)"
  by (induction G) auto

lemma length_update_le: "length (AList.update k v G) \<le> Suc (length G)"
  by (induction G) auto

lemma set_delete_subset: "set (AList.delete k G) \<subseteq> set G"
  by (induction G) auto

lemma create_group_length: "length (g_instances (create_group G u n m)) = 2"
  by (simp add: create_group_def Let_def)

lemma handle_two_instances:
  assumes "\<forall>p\<in>set G. length (g_instances (snd p)) = 2"
  shows "\<forall>p\<in>set (snd (handle G r)). length (g_instances (snd p)) = 2"
proof (cases r)
  case (POST u b)
  have "\<forall>p\<in>set (AList.update u (create_group G u n m) G). length (g_instances (snd p)) = 2"
    for n m
    using set_update_subset [of u "create_group G u n m" G] assms create_group_length
    by fastforce
  with POST assms show ?thesis
    by (auto simp: post_def Let_def split: sum.splits option.splits)
next
  case (GET k)
  with assms show ?thesis by (auto simp: get_def split: option.splits)
next
  case (PUT k b)
  from put_store_cases [of G k b] show ?thesis
  proof
    assume "snd (put G k b) = G"
    with PUT assms show ?thesis by simp
  next
    assume "\<exists>grp grp'. map_of G k = Some grp \<and> g_instances grp' = g_instances grp
         \<and> snd (put G k b) = AList.update k grp' G"
    then obtain grp grp' where g: "map_of G k = Some grp" "g_instances grp' = g_instances grp"
      "snd (put G k b) = AList.update k grp' G" by blast
    from g(1) have "(k, grp) \<in> set G" by (rule map_of_SomeD)
    with assms g(2) have "length (g_instances grp') = 2" by fastforce
    with set_update_subset [of k grp' G] assms
    have "\<forall>p\<in>set (AList.update k grp' G). length (g_instances (snd p)) = 2" by fastforce
    with PUT g(3) show ?thesis by simp
  qed
next
  case (DELETE k)
  with assms set_delete_subset [of k G] show ?thesis
    by (auto simp: delete_def split: option.splits)
qed

lemma handle_length: "length (snd (handle G r)) \<le> Suc (length G)"
proof (cases r)
  case (POST u b)
  then show ?thesis
    by (auto simp: post_def Let_def length_update_le split: sum.splits option.splits)
next
  case (GET k)
  then show ?thesis by (auto simp: get_def split: option.splits)
next
  case (PUT k b)
  then show ?thesis
    by (auto simp: put_def Let_def length_update_le split: sum.splits option.splits)
next
  case (DELETE k)
  then show ?thesis
    using length_delete_le [of k G] by (auto simp: delete_def split: option.splits)
qed

lemma room_no_exhaustion:
  assumes "\<forall>p\<in>set G. length (g_instances (snd p)) = 2"
    and "length G + length rs \<le> 32767"
  shows "no_exhaustion G rs"
  using assms
proof (induction rs arbitrary: G)
  case Nil
  show ?case by simp
next
  case (Cons r rs)
  from Cons.prems have "length (store_addrs G) \<le> 65533"
    by (simp add: length_store_addrs)
  then have "\<not> exhausted G" by (rule room_not_exhausted)
  moreover have "no_exhaustion (snd (handle G r)) rs"
  proof (rule Cons.IH)
    show "\<forall>p\<in>set (snd (handle G r)). length (g_instances (snd p)) = 2"
      by (rule handle_two_instances) (rule Cons.prems(1))
    from handle_length [of G r] Cons.prems(2)
    show "length (snd (handle G r)) + length rs \<le> 32767" by simp
  qed
  ultimately show ?case by simp
qed

lemma bootstrap_shape:
  "(\<forall>p\<in>set (bootstrap u1 u2). length (g_instances (snd p)) = 2) \<and> length (bootstrap u1 u2) \<le> 2"
  by (simp add: bootstrap_def Let_def create_group_length)

lemma bootstrap_no_exhaustion:
  assumes "length rs \<le> 32765"
  shows "no_exhaustion (bootstrap u1 u2) rs"
proof (rule room_no_exhaustion)
  show "\<forall>p\<in>set (bootstrap u1 u2). length (g_instances (snd p)) = 2"
    using bootstrap_shape by blast
  from bootstrap_shape [of u1 u2] assms
  show "length (bootstrap u1 u2) + length rs \<le> 32767" by simp
qed

lemma bootstrap_a_b:
  "bootstrap ''a'' ''b'' =
     [(''a'', create_group [] ''a'' ''memcached for Bob'' 0.5),
      (''b'', create_group [(''a'', create_group [] ''a'' ''memcached for Bob'' 0.5)] ''b''
                ''memcached for Alice'' 1.2)]"
  by (simp add: bootstrap_def Let_def)

lemma allocate_five: "allocate_ip (bootstrap ''a'' ''b'') [] = Some ''172.20.0.5''"
  unfolding allocate_ip_def store_addrs_bootstrap
  by (simp add: eval_scan)

lemma allocate_six:
  "allocate_ip (bootstrap ''a'' ''b'') [Some ''172.20.0.5''] = Some ''172.20.0.6''"
  unfolding allocate_ip_def store_addrs_bootstrap
  by (simp add: eval_scan)

subsection \<open>The instances of a new group\<close>

text \<open>
  \<open>create_group\<close> has no failure of its own: on an exhausted allocator it still
  returns a group, with \<open>None\<close> for an address.
\<close>

lemma create_group_exhausted:
  "exhausted G \<Longrightarrow> None \<in> set (map i_addr (g_instances (create_group G group_id name memsize)))"
  by (auto simp: exhausted_def create_group_def Let_def)

text \<open>Filling the subnet: the addresses recorded after \<open>n\<close> creations on the seeded store.\<close>

lemma serve_append: "serve G (xs @ ys) = serve (serve G xs) ys"
  by (induction xs arbitrary: G) simp_all

lemma dec_digits: "set (dec n) \<subseteq> set ''0123456789''"
proof (induction n rule: dec.induct)
  case (1 n)
  have d: "digit k \<in> set ''0123456789''" if "k < 10" for k
    unfolding digit_def using that by (intro nth_mem) simp
  show ?case
  proof (cases "n < 10")
    case True
    with d [of n] show ?thesis by (subst dec.simps) simp
  next
    case False
    have "n mod 10 < 10" by simp
    from d [OF this] "1" [OF False] False show ?thesis
      by (subst dec.simps) simp
  qed
qed

lemma dec_not_seed: "dec n \<noteq> ''a''" "dec n \<noteq> ''b''"
  using dec_digits [of n] by auto

lemma keys_posts:
  "fst ` set (serve (bootstrap ''a'' ''b'') (posts n)) \<subseteq> {''a'', ''b''} \<union> dec ` {..<n}"
proof (induction n)
  case 0
  show ?case by (simp add: bootstrap_a_b)
next
  case (Suc n)
  have "fst ` set (snd (post G u b)) \<subseteq> insert u (fst ` set G)" for G u b
    by (auto simp: post_def Let_def dom_update split: sum.splits option.splits)
  then have "fst ` set (serve (bootstrap ''a'' ''b'') (posts (Suc n)))
      \<subseteq> insert (dec n) (fst ` set (serve (bootstrap ''a'' ''b'') (posts n)))"
    by (simp add: serve_append)
  also have "\<dots> \<subseteq> insert (dec n) ({''a'', ''b''} \<union> dec ` {..<n})"
    using Suc by blast
  also have "\<dots> = {''a'', ''b''} \<union> dec ` {..<Suc n}"
    by (simp only: lessThan_Suc image_insert Un_insert_right)
  finally show ?case .
qed

lemma store_addrs_update_fresh:
  "k \<notin> fst ` set G \<Longrightarrow>
     store_addrs (AList.update k g G) = store_addrs G @ map i_addr (g_instances g)"
  by (induction G) auto

lemma subnet_addr_0: "subnet_addr 0 = network_address"
  by (simp add: subnet_addr_def str_ip_def net_first_def network_address_text dec.simps digit_def)

lemma allocate_ip_at:
  assumes "i < net_size" and "\<not> unavailable G skip (subnet_addr i)"
    and "\<forall>j<i. unavailable G skip (subnet_addr j)"
  shows "allocate_ip G skip = Some (subnet_addr i)"
proof (cases "allocate_ip G skip")
  case None
  then have "\<forall>i<net_size. unavailable G skip (subnet_addr i)"
    by (simp add: allocate_ip_def Let_def scan_None_iff subnet_addr_def
        except_list_unavailable [symmetric])
  with assms(1,2) show ?thesis by blast
next
  case (Some s)
  from allocate_ip_Some [OF Some] obtain i' where i': "i' < net_size" "s = subnet_addr i'"
    "\<not> unavailable G skip s" "\<forall>j<i'. unavailable G skip (subnet_addr j)" by blast
  have "\<not> i' < i" using assms(3) i'(2,3) by blast
  moreover have "\<not> i < i'" using assms(2) i'(4) by blast
  ultimately have "i' = i" by simp
  with Some i'(2) show ?thesis by simp
qed

lemma prefix_unavailable:
  assumes "set (store_addrs G) \<union> set skip = (\<lambda>i. Some (subnet_addr i)) ` {1..m}"
    and "m < net_size" and "j < net_size"
  shows "unavailable G skip (subnet_addr j) \<longleftrightarrow> j \<le> m"
proof -
  have "Some (subnet_addr j) \<in> (\<lambda>i. Some (subnet_addr i)) ` {1..m} \<longleftrightarrow> 1 \<le> j \<and> j \<le> m"
  proof
    assume "Some (subnet_addr j) \<in> (\<lambda>i. Some (subnet_addr i)) ` {1..m}"
    then obtain i where i: "1 \<le> i" "i \<le> m" "subnet_addr j = subnet_addr i" by auto
    with assms(2,3) have "j = i" by (intro subnet_addr_inj) simp_all
    with i show "1 \<le> j \<and> j \<le> m" by simp
  next
    assume "1 \<le> j \<and> j \<le> m"
    then show "Some (subnet_addr j) \<in> (\<lambda>i. Some (subnet_addr i)) ` {1..m}" by simp
  qed
  moreover have "subnet_addr j = network_address \<longleftrightarrow> j = 0"
    using subnet_addr_inj [of j 0] assms(3) subnet_addr_0 by (auto simp: net_size_def)
  moreover have "unavailable G skip (subnet_addr j) \<longleftrightarrow>
      subnet_addr j = network_address \<or> Some (subnet_addr j) \<in> set (store_addrs G) \<union> set skip"
    by (auto simp: unavailable_iff)
  ultimately show ?thesis using assms(1) by auto
qed

lemma allocate_prefix:
  assumes "set (store_addrs G) \<union> set skip = (\<lambda>i. Some (subnet_addr i)) ` {1..m}"
    and "m < net_size"
  shows "allocate_ip G skip = (if Suc m < net_size then Some (subnet_addr (Suc m)) else None)"
proof (cases "Suc m < net_size")
  case True
  have "allocate_ip G skip = Some (subnet_addr (Suc m))"
  proof (rule allocate_ip_at [OF True])
    show "\<not> unavailable G skip (subnet_addr (Suc m))"
      using prefix_unavailable [OF assms True] by simp
    show "\<forall>j<Suc m. unavailable G skip (subnet_addr j)"
      using prefix_unavailable [OF assms] True by simp
  qed
  with True show ?thesis by simp
next
  case False
  have "\<forall>i<net_size. unavailable G skip (subnet_addr i)"
    using prefix_unavailable [OF assms] False by auto
  then have "allocate_ip G skip = None"
    by (simp add: allocate_ip_def Let_def scan_None_iff subnet_addr_def
        except_list_unavailable [symmetric])
  with False show ?thesis by simp
qed

lemma create_group_prefix:
  assumes "store_addrs G = map (\<lambda>i. Some (subnet_addr i)) [1..<Suc m]" and "Suc m < net_size"
  shows "map i_addr (g_instances (create_group G u n x)) =
           [Some (subnet_addr (Suc m)),
            if Suc (Suc m) < net_size then Some (subnet_addr (Suc (Suc m))) else None]"
proof -
  from assms(1) have s0: "set (store_addrs G) \<union> set [] = (\<lambda>i. Some (subnet_addr i)) ` {1..m}"
    by (auto simp: atLeastLessThanSuc_atLeastAtMost)
  from allocate_prefix [OF s0] assms(2)
  have a1: "allocate_ip G [] = Some (subnet_addr (Suc m))" by simp
  from assms(1)
  have s1: "set (store_addrs G) \<union> set [Some (subnet_addr (Suc m))]
      = (\<lambda>i. Some (subnet_addr i)) ` {1..Suc m}"
    by (auto simp: atLeastLessThanSuc_atLeastAtMost atLeastAtMostSuc_conv)
  from allocate_prefix [OF s1 assms(2)] a1 show ?thesis
    by (simp add: create_group_addrs)
qed

lemma upt_two_more: "1 \<le> k \<Longrightarrow> [1..<Suc (Suc k)] = [1..<k] @ [k, Suc k]"
  by simp

lemma seed_addrs:
  "store_addrs (bootstrap ''a'' ''b'') = map (\<lambda>i. Some (subnet_addr i)) [1..<Suc (Suc (Suc (Suc 1)))]"
proof -
  have "[1..<Suc (Suc (Suc (Suc 1)))] = [1, Suc 1, Suc (Suc 1), Suc (Suc (Suc 1))]"
    by (simp only: upt_Suc_append upt_Suc append.simps upt_rec [of 1 1]) simp
  moreover have "subnet_addr 1 = ''172.20.0.1''" "subnet_addr (Suc 1) = ''172.20.0.2''"
    "subnet_addr (Suc (Suc 1)) = ''172.20.0.3''" "subnet_addr (Suc (Suc (Suc 1))) = ''172.20.0.4''"
    by (simp_all add: subnet_addr_def eval_scan)
  ultimately show ?thesis
    by (simp only: store_addrs_bootstrap list.map) simp
qed

lemma store_addrs_posts:
  "n \<le> 32765 \<Longrightarrow>
     store_addrs (serve (bootstrap ''a'' ''b'') (posts n))
       = map (\<lambda>i. Some (subnet_addr i)) [1..<Suc (2 * n + 4)]"
proof (induction n)
  case 0
  have "Suc (2 * 0 + 4) = Suc (Suc (Suc (Suc 1)))" by simp
  then show ?case
    by (simp only: posts.simps serve.simps seed_addrs)
next
  case (Suc n)
  let ?S = "serve (bootstrap ''a'' ''b'') (posts n)"
  let ?g = "create_group ?S (dec n) ''X'' 0.5"
  from Suc have IH: "store_addrs ?S = map (\<lambda>i. Some (subnet_addr i)) [1..<Suc (2 * n + 4)]"
    by simp
  from Suc.prems have room: "Suc (Suc (2 * n + 4)) < net_size" by (simp add: net_size_def)
  then have "Suc (2 * n + 4) < net_size" by simp
  from create_group_prefix [OF IH this] room
  have g: "map i_addr (g_instances ?g) =
      [Some (subnet_addr (Suc (2 * n + 4))), Some (subnet_addr (Suc (Suc (2 * n + 4))))]"
    by simp
  have fresh: "dec n \<notin> fst ` set ?S"
  proof
    assume "dec n \<in> fst ` set ?S"
    with keys_posts [of n] have "dec n \<in> {''a'', ''b''} \<union> dec ` {..<n}" by blast
    with dec_not_seed [of n] obtain k where "k < n" "dec n = dec k" by auto
    with dec_inj show False by blast
  qed
  have "serve (bootstrap ''a'' ''b'') (posts (Suc n)) = AList.update (dec n) ?g ?S"
    by (simp add: serve_append post_def parse_post_cases Let_def)
  then have "store_addrs (serve (bootstrap ''a'' ''b'') (posts (Suc n)))
      = store_addrs ?S @ map i_addr (g_instances ?g)"
    using store_addrs_update_fresh [OF fresh] by simp
  also have "\<dots> = map (\<lambda>i. Some (subnet_addr i))
      ([1..<Suc (2 * n + 4)] @ [Suc (2 * n + 4), Suc (Suc (2 * n + 4))])"
    unfolding IH g by simp
  also have "[1..<Suc (2 * n + 4)] @ [Suc (2 * n + 4), Suc (Suc (2 * n + 4))]
      = [1..<Suc (Suc (Suc (2 * n + 4)))]"
    by (rule upt_two_more [symmetric]) simp
  also have "Suc (Suc (Suc (2 * n + 4))) = Suc (2 * Suc n + 4)" by simp
  finally show ?case .
qed

lemma broadcast_text: "subnet_addr 65535 = ''172.20.255.255''"
  by (simp add: subnet_addr_def eval_scan)

text \<open>
  C5, as stated, fails: \<open>create_group\<close> has no unsuccessful outcome, and a create
  request whose body parses is always answered 201. After the seeded store has served
  32765 creations, 172.20.255.255 is the only address left; the next creation is
  answered 201 with a group whose first instance has that address and whose second
  instance has the address \<open>None\<close>, which is no address of the subnet.
\<close>

theorem create_group_exhausted_subnet:
  "fst (post crowded ''z'' \<lparr>b_name = Value ''X'', b_memsize = Absent\<rparr>)
     = Inr (Group_body (create_group crowded ''z'' ''X'' 0.5), 201)
   \<and> map i_addr (g_instances (create_group crowded ''z'' ''X'' 0.5))
     = [Some ''172.20.255.255'', None]"
proof -
  have "2 * 32765 + 4 = (65534::nat)" by simp
  with store_addrs_posts [of 32765]
  have "store_addrs crowded = map (\<lambda>i. Some (subnet_addr i)) [1..<Suc 65534]"
    unfolding crowded_def by (simp only: le_refl)
  moreover have "Suc 65534 < net_size" by (simp add: net_size_def)
  ultimately
  have "map i_addr (g_instances (create_group crowded ''z'' ''X'' 0.5)) =
           [Some (subnet_addr (Suc 65534)),
            if Suc (Suc 65534) < net_size then Some (subnet_addr (Suc (Suc 65534))) else None]"
    by (rule create_group_prefix)
  then have "map i_addr (g_instances (create_group crowded ''z'' ''X'' 0.5))
     = [Some ''172.20.255.255'', None]"
    by (simp add: net_size_def broadcast_text)
  then show ?thesis
    by (simp add: post_def parse_post_cases Let_def)
qed

text \<open>
  C5, amended: every creation yields a group with exactly two instances, whose
  identifiers are \<open>{group_id}_1\<close> and \<open>{group_id}_2\<close>. When the allocator is not
  exhausted, that is, when both calls of \<open>allocate_ip\<close> return an address, as they do
  whenever the store records at most 65533 addresses, the two addresses are different
  dotted quads of 172.20.0.0/16, neither of them 172.20.0.0.
\<close>

theorem create_group_two_instances:
  "length (g_instances (create_group G group_id name memsize)) = 2
   \<and> map i_id (g_instances (create_group G group_id name memsize))
       = [group_id @ ''_1'', group_id @ ''_2'']
   \<and> (length (store_addrs G) \<le> 65533 \<longrightarrow> \<not> exhausted G)
   \<and> (\<not> exhausted G \<longrightarrow>
      (\<exists>ip1 ip2.
         g_instances (create_group G group_id name memsize) =
           [\<lparr>i_id = group_id @ ''_1'', i_name = ''1'', i_addr = Some ip1, i_host = ''localhost''\<rparr>,
            \<lparr>i_id = group_id @ ''_2'', i_name = ''2'', i_addr = Some ip2, i_host = ''localhost''\<rparr>]
         \<and> ip1 \<noteq> ip2 \<and> in_subnet ip1 \<and> in_subnet ip2
         \<and> ip1 \<noteq> ''172.20.0.0'' \<and> ip2 \<noteq> ''172.20.0.0''))"
proof (intro conjI impI)
  show "length (g_instances (create_group G group_id name memsize)) = 2"
    by (simp add: create_group_def Let_def)
  show "map i_id (g_instances (create_group G group_id name memsize))
       = [group_id @ ''_1'', group_id @ ''_2'']"
    by (simp add: create_group_def Let_def)
  show "\<not> exhausted G" if "length (store_addrs G) \<le> 65533"
    using that by (rule room_not_exhausted)
  show "\<exists>ip1 ip2.
      g_instances (create_group G group_id name memsize) =
        [\<lparr>i_id = group_id @ ''_1'', i_name = ''1'', i_addr = Some ip1, i_host = ''localhost''\<rparr>,
         \<lparr>i_id = group_id @ ''_2'', i_name = ''2'', i_addr = Some ip2, i_host = ''localhost''\<rparr>]
      \<and> ip1 \<noteq> ip2 \<and> in_subnet ip1 \<and> in_subnet ip2
      \<and> ip1 \<noteq> ''172.20.0.0'' \<and> ip2 \<noteq> ''172.20.0.0''"
    if ne: "\<not> exhausted G"
  proof -
    from ne obtain ip1 where ip1: "allocate_ip G [] = Some ip1"
      by (auto simp: exhausted_def)
    with ne obtain ip2 where ip2: "allocate_ip G [Some ip1] = Some ip2"
      by (auto simp: exhausted_def)
    from allocate_ip_fresh [OF ip1] have 1: "in_subnet ip1" "ip1 \<noteq> ''172.20.0.0''"
      by (simp_all add: network_address_text)
    from allocate_ip_fresh [OF ip2] have 2: "in_subnet ip2" "ip2 \<noteq> ''172.20.0.0''" "ip1 \<noteq> ip2"
      by (auto simp: network_address_text)
    from ip1 ip2 have "g_instances (create_group G group_id name memsize) =
        [\<lparr>i_id = group_id @ ''_1'', i_name = ''1'', i_addr = Some ip1, i_host = ''localhost''\<rparr>,
         \<lparr>i_id = group_id @ ''_2'', i_name = ''2'', i_addr = Some ip2, i_host = ''localhost''\<rparr>]"
      by (simp add: create_group_def Let_def)
    with 1 2 show ?thesis by blast
  qed
qed

theorem create_group_two_instances_witness:
  "\<not> exhausted []
   \<and> map i_addr (g_instances (create_group [] ''c0ffee'' ''X'' 0.5))
       = [Some ''172.20.0.1'', Some ''172.20.0.2'']
   \<and> map i_id (g_instances (create_group [] ''c0ffee'' ''X'' 0.5)) = [''c0ffee_1'', ''c0ffee_2'']
   \<and> in_subnet ''172.20.0.1'' \<and> in_subnet ''172.20.0.2''"
proof -
  have ne: "\<not> exhausted []"
    by (simp add: exhausted_def allocate_empty allocate_two)
  have addrs: "map i_addr (g_instances (create_group [] ''c0ffee'' ''X'' 0.5))
       = [Some ''172.20.0.1'', Some ''172.20.0.2'']"
    by (simp add: create_group_def Let_def allocate_empty allocate_two)
  from create_group_two_instances [of "[]" "''c0ffee''" "''X''" "0.5"] addrs
  show ?thesis using ne by auto
qed

subsection \<open>The allocator's contract\<close>

text \<open>
  C4. Call an address unavailable when it is 172.20.0.0, or the \<open>addr\<close> of an
  instance of a group in the store, or in the \<open>skip\<close> list. \<open>allocate_ip\<close> returns no
  result exactly when every address of the subnet is unavailable. When it returns an
  address, that address is the \<open>i\<close>-th of the subnet for some \<open>i\<close>, it is available,
  and every address before it in ascending order is unavailable: it is the first
  available one.
\<close>

theorem allocate_ip_first_free:
  "(allocate_ip G skip = None \<longleftrightarrow> (\<forall>i<net_size. unavailable G skip (subnet_addr i)))
   \<and> (\<forall>s. allocate_ip G skip = Some s \<longrightarrow>
         (\<exists>i<net_size. s = subnet_addr i \<and> \<not> unavailable G skip s
            \<and> (\<forall>j<i. unavailable G skip (subnet_addr j))))"
proof
  show "allocate_ip G skip = None \<longleftrightarrow> (\<forall>i<net_size. unavailable G skip (subnet_addr i))"
    by (simp add: allocate_ip_def Let_def scan_None_iff subnet_addr_def
        except_list_unavailable [symmetric])
next
  show "\<forall>s. allocate_ip G skip = Some s \<longrightarrow>
         (\<exists>i<net_size. s = subnet_addr i \<and> \<not> unavailable G skip s
            \<and> (\<forall>j<i. unavailable G skip (subnet_addr j)))"
    using allocate_ip_Some by blast
qed

theorem allocate_ip_first_free_witness:
  "allocate_ip (bootstrap ''a'' ''b'') [Some ''172.20.0.5''] = Some ''172.20.0.6''
   \<and> ''172.20.0.6'' = subnet_addr 6
   \<and> \<not> unavailable (bootstrap ''a'' ''b'') [Some ''172.20.0.5''] ''172.20.0.6''
   \<and> unavailable (bootstrap ''a'' ''b'') [Some ''172.20.0.5''] (subnet_addr 0)
   \<and> unavailable (bootstrap ''a'' ''b'') [Some ''172.20.0.5''] (subnet_addr 1)
   \<and> unavailable (bootstrap ''a'' ''b'') [Some ''172.20.0.5''] (subnet_addr 4)
   \<and> unavailable (bootstrap ''a'' ''b'') [Some ''172.20.0.5''] (subnet_addr 5)
   \<and> \<not> unavailable [] [Some ''172.20.0.5''] (subnet_addr 4)"
proof -
  have six: "''172.20.0.6'' = subnet_addr 6"
    by (simp add: subnet_addr_def eval_scan)
  from allocate_ip_first_free [of "bootstrap ''a'' ''b''" "[Some ''172.20.0.5'']"] allocate_six
  obtain i where i: "i < net_size" "''172.20.0.6'' = subnet_addr i"
    "\<not> unavailable (bootstrap ''a'' ''b'') [Some ''172.20.0.5''] ''172.20.0.6''"
    "\<forall>j<i. unavailable (bootstrap ''a'' ''b'') [Some ''172.20.0.5''] (subnet_addr j)"
    by blast
  from i(1,2) six have "i = 6"
    by (intro subnet_addr_inj) (simp_all add: net_size_def)
  with i(4) have "unavailable (bootstrap ''a'' ''b'') [Some ''172.20.0.5''] (subnet_addr 0)"
    "unavailable (bootstrap ''a'' ''b'') [Some ''172.20.0.5''] (subnet_addr 1)"
    "unavailable (bootstrap ''a'' ''b'') [Some ''172.20.0.5''] (subnet_addr 4)"
    "unavailable (bootstrap ''a'' ''b'') [Some ''172.20.0.5''] (subnet_addr 5)"
    by simp_all
  moreover have "\<not> unavailable [] [Some ''172.20.0.5''] (subnet_addr 4)"
    by (simp add: unavailable_def subnet_addr_def eval_scan)
  ultimately show ?thesis using allocate_six six i(3) by simp
qed

subsection \<open>Uniqueness along the requests served\<close>

text \<open>
  C3. Start from the seeded store, whatever the two identifiers drawn for it, and serve
  any list of create, read, update and delete requests. Then the addresses recorded in
  the store that an allocation returned are pairwise different. As long as no creation
  met an exhausted allocator, every recorded \<open>addr\<close> is such an address, so no two
  instance records of the store have the same \<open>addr\<close>. The allocator is not exhausted
  during the first 32765 requests at least.
\<close>

theorem addresses_unique_until_exhaustion:
  "distinct (assigned (serve (bootstrap uuid1 uuid2) rs))
   \<and> (no_exhaustion (bootstrap uuid1 uuid2) rs \<longrightarrow>
        distinct (store_addrs (serve (bootstrap uuid1 uuid2) rs)))
   \<and> (length rs \<le> 32765 \<longrightarrow> no_exhaustion (bootstrap uuid1 uuid2) rs)"
proof (intro conjI impI)
  show d: "distinct (assigned (serve (bootstrap uuid1 uuid2) rs))"
    by (rule serve_distinct_assigned [OF bootstrap_distinct_assigned])
  show "distinct (store_addrs (serve (bootstrap uuid1 uuid2) rs))"
    if ne: "no_exhaustion (bootstrap uuid1 uuid2) rs"
  proof -
    have "None \<notin> set (store_addrs (bootstrap uuid1 uuid2))"
      by (simp add: store_addrs_bootstrap)
    from serve_no_None [OF this ne]
    have "assigned (serve (bootstrap uuid1 uuid2) rs) = store_addrs (serve (bootstrap uuid1 uuid2) rs)"
      unfolding assigned_def by (rule filter_not_None_id)
    with d show ?thesis by simp
  qed
  show "no_exhaustion (bootstrap uuid1 uuid2) rs" if "length rs \<le> 32765"
    using that by (rule bootstrap_no_exhaustion)
qed

theorem addresses_unique_until_exhaustion_witness:
  "no_exhaustion (bootstrap ''a'' ''b'')
     [POST ''c'' \<lparr>b_name = Value ''X'', b_memsize = Absent\<rparr>, DELETE ''a'']
   \<and> store_addrs (serve (bootstrap ''a'' ''b'')
        [POST ''c'' \<lparr>b_name = Value ''X'', b_memsize = Absent\<rparr>, DELETE ''a''])
       = [Some ''172.20.0.3'', Some ''172.20.0.4'', Some ''172.20.0.5'', Some ''172.20.0.6'']
   \<and> distinct (store_addrs (serve (bootstrap ''a'' ''b'')
        [POST ''c'' \<lparr>b_name = Value ''X'', b_memsize = Absent\<rparr>, DELETE ''a'']))"
proof -
  let ?rs = "[POST ''c'' \<lparr>b_name = Value ''X'', b_memsize = Absent\<rparr>, DELETE ''a'']"
  define g1 where "g1 = create_group [] ''a'' ''memcached for Bob'' 0.5"
  define g2 where "g2 = create_group [(''a'', g1)] ''b'' ''memcached for Alice'' 1.2"
  define gc where "gc = create_group (bootstrap ''a'' ''b'') ''c'' ''X'' 0.5"
  have B: "bootstrap ''a'' ''b'' = [(''a'', g1), (''b'', g2)]"
    by (simp add: bootstrap_def Let_def g1_def g2_def)
  have a2: "map i_addr (g_instances g2) = [Some ''172.20.0.3'', Some ''172.20.0.4'']"
    unfolding g2_def g1_def by (simp add: create_group_addrs allocate_three allocate_four)
  have ac: "map i_addr (g_instances gc) = [Some ''172.20.0.5'', Some ''172.20.0.6'']"
    unfolding gc_def by (simp add: create_group_addrs allocate_five allocate_six)
  have "serve (bootstrap ''a'' ''b'') ?rs
      = AList.delete ''a'' (AList.update ''c'' gc (bootstrap ''a'' ''b''))"
    by (simp add: post_def parse_post_cases Let_def delete_def abort_if_group_doesnt_exist_def
        in_store_def gc_def update_conv' B)
  then have "store_addrs (serve (bootstrap ''a'' ''b'') ?rs)
       = [Some ''172.20.0.3'', Some ''172.20.0.4'', Some ''172.20.0.5'', Some ''172.20.0.6'']"
    by (simp add: B a2 ac)
  moreover have "length ?rs \<le> 32765" by simp
  ultimately show ?thesis
    using addresses_unique_until_exhaustion [of "''a''" "''b''" ?rs] by blast
qed

end
